theory Spec2Isabelle
  imports Complex_Main
begin

section \<open>Web-Tuner: the pitch pipeline of popup.js\<close>

text \<open>
  The theory embeds the numeric core of \<^verbatim>\<open>popup.js\<close>: \<^verbatim>\<open>autoCorrelate\<close>,
  \<^verbatim>\<open>smoothFrequency\<close>, \<^verbatim>\<open>frequencyToNote\<close>, \<^verbatim>\<open>frequencyToCents\<close>, and the
  parts of \<^verbatim>\<open>detectPitch\<close> and \<^verbatim>\<open>stopTuner\<close> that touch the smoother's variables.

  Numbers. A JavaScript Number is modelled as a \<^typ>\<open>real\<close>: arithmetic is exact, the
  rounding of IEEE doubles and of the \<^verbatim>\<open>Float32Array\<close> that holds the normalised buffer
  is not modelled. Loop counters and lags, which the source keeps integral, are
  \<^typ>\<open>nat\<close> and \<^typ>\<open>int\<close>. The places where the source, started on finite numbers,
  produces \<^verbatim>\<open>NaN\<close> or an infinity are written out as branches, since HOL's total
  division (\<open>x / 0 = 0\<close>) would hide them:
  \<^item> the RMS of an empty buffer is \<^verbatim>\<open>sqrt(0/0) = NaN\<close> (\<open>None\<close> below), and every
    comparison with \<^verbatim>\<open>NaN\<close> is false;
  \<^item> a sum divided by \<^verbatim>\<open>MAX_SAMPLES = 0\<close> is \<^verbatim>\<open>NaN\<close>;
  \<^item> the parabola's \<^verbatim>\<open>delta\<close> with a zero denominator is \<^verbatim>\<open>NaN\<close> or infinite, and
    fails \<^verbatim>\<open>!isNaN(delta) && Math.abs(delta) < 1\<close>;
  \<^item> \<^verbatim>\<open>sampleRate / 0\<close> is \<^verbatim>\<open>NaN\<close> or infinite and fails the range check.

  Array reads. Reading a JavaScript array outside its bounds yields \<^verbatim>\<open>undefined\<close>
  (and \<^verbatim>\<open>NaN\<close> once it enters arithmetic). Every read of the normalised buffer goes
  through \<open>read_at\<close>, and a read out of bounds makes the enclosing function return
  \<open>None\<close>.
\<close>

subsection \<open>JavaScript primitives\<close>

definition read_at :: "'a list \<Rightarrow> int \<Rightarrow> 'a option" where
  "read_at arr k = (if 0 \<le> k \<and> k < int (length arr) then Some (arr ! nat k) else None)"

text \<open>\<^verbatim>\<open>Math.round\<close>: the nearest integer, a tie going up.\<close>

definition js_round :: "real \<Rightarrow> int" where
  "js_round x = \<lfloor>x + 1 / 2\<rfloor>"

text \<open>The remainder operator \<^verbatim>\<open>%\<close> on integers: the result has the sign of the dividend.\<close>

definition js_rem :: "int \<Rightarrow> int \<Rightarrow> int" where
  "js_rem a b = sgn a * (\<bar>a\<bar> mod \<bar>b\<bar>)"

subsection \<open>Tuner state\<close>

text \<open>\<^verbatim>\<open>const noteStrings = ['C', 'C#', 'D', 'D#', 'E', 'F', 'F#', 'G', 'G#', 'A', 'A#', 'B']\<close>\<close>

definition noteStrings :: "string list" where
  "noteStrings = [''C'', ''C#'', ''D'', ''D#'', ''E'', ''F'', ''F#'', ''G'', ''G#'', ''A'', ''A#'', ''B'']"

text \<open>
  The object \<^verbatim>\<open>frequencyToNote\<close> returns. \<open>name\<close> is \<open>None\<close> where the source's
  \<^verbatim>\<open>noteStrings[...]\<close> is \<^verbatim>\<open>undefined\<close>.
\<close>

record note_result =
  name :: "string option"
  octave :: int
  frequency :: real
  midiNote :: int

text \<open>
  What the popup shows: the three text fields after \<^verbatim>\<open>stopTuner\<close> (\<open>Cleared\<close>),
  \<^verbatim>\<open>'No signal'\<close>, \<^verbatim>\<open>'Detecting...'\<close>, or a reading (note, smoothed frequency, cents).
  The formatting of the texts and the canvas are not modelled.
\<close>

datatype display = Cleared | NoSignal | Detecting | Reading note_result real int

text \<open>
  The module-level variables. \<^verbatim>\<open>audioContext\<close>, \<^verbatim>\<open>analyser\<close>, \<^verbatim>\<open>mediaStream\<close> and
  \<^verbatim>\<open>animationFrameId\<close> are handles of the browser and are left out; the frame and the
  sample rate they deliver are arguments of \<open>detectPitch\<close>.
\<close>

record tuner =
  isRunning :: bool
  lastFrequency :: real
  frequencyHistory :: "real list"
  shown :: display

text \<open>The values of the \<^verbatim>\<open>let\<close> declarations at the top of the file.\<close>

definition initial_tuner :: tuner where
  "initial_tuner = \<lparr>isRunning = False, lastFrequency = - 1, frequencyHistory = [], shown = Cleared\<rparr>"

subsection \<open>Signal energy\<close>

text \<open>
  \<^verbatim>\<open>for (let i = 0; i < SIZE; i++) { const val = buffer[i]; rms += val * val; }\<close> in
  \<^verbatim>\<open>autoCorrelate\<close>, and \<^verbatim>\<open>buffer.reduce((sum, val) => sum + val * val, 0)\<close> in
  \<^verbatim>\<open>detectPitch\<close>.
\<close>

definition sum_squares :: "real list \<Rightarrow> real" where
  "sum_squares buffer = fold (\<lambda>val rms. rms + val * val) buffer 0"

text \<open>
  \<^verbatim>\<open>Math.sqrt(rms / SIZE)\<close>. For \<^verbatim>\<open>SIZE = 0\<close> this is \<^verbatim>\<open>Math.sqrt(0 / 0)\<close>, that is
  \<^verbatim>\<open>NaN\<close>: \<open>None\<close>.
\<close>

definition rms_of :: "real list \<Rightarrow> real option" where
  "rms_of buffer =
     (if length buffer = 0 then None
      else Some (sqrt (sum_squares buffer / real (length buffer))))"

text \<open>\<^verbatim>\<open>rms < 0.01\<close>, false when \<^verbatim>\<open>rms\<close> is \<^verbatim>\<open>NaN\<close>.\<close>

definition below_threshold :: "real option \<Rightarrow> bool" where
  "below_threshold rms = (case rms of None \<Rightarrow> False | Some r \<Rightarrow> r < 0.01)"

text \<open>
  \<^verbatim>\<open>normalizedBuffer[i] = buffer[i] / rms\<close> for \<^verbatim>\<open>i < SIZE\<close>. \<^verbatim>\<open>rms\<close> is \<^verbatim>\<open>NaN\<close> only
  when the buffer, and so the new array, is empty.
\<close>

definition normalizeBuffer :: "real option \<Rightarrow> real list \<Rightarrow> real list" where
  "normalizeBuffer rms buffer = (case rms of None \<Rightarrow> [] | Some r \<Rightarrow> map (\<lambda>v. v / r) buffer)"

subsection \<open>autoCorrelate\<close>

text \<open>\<^verbatim>\<open>normalizedBuffer[i] * normalizedBuffer[j]\<close>, both reads checked.\<close>

definition product_at :: "real list \<Rightarrow> int \<Rightarrow> int \<Rightarrow> real option" where
  "product_at nb i j =
     (case read_at nb i of
        None \<Rightarrow> None
      | Some a \<Rightarrow> (case read_at nb j of None \<Rightarrow> None | Some b \<Rightarrow> Some (a * b)))"

text \<open>
  The inner loop
  \<^verbatim>\<open>for (let i = 0; i < MAX_SAMPLES; i++) correlation += normalizedBuffer[i] * normalizedBuffer[i + offset];\<close>
\<close>

function corr_loop :: "real list \<Rightarrow> nat \<Rightarrow> int \<Rightarrow> nat \<Rightarrow> real \<Rightarrow> real option" where
  "corr_loop nb MAX_SAMPLES offset i correlation =
     (if i < MAX_SAMPLES then
        (case product_at nb (int i) (int i + offset) of
           None \<Rightarrow> None
         | Some p \<Rightarrow> corr_loop nb MAX_SAMPLES offset (i + 1) (correlation + p))
      else Some correlation)"
  by pat_completeness auto
termination
  by (relation "measure (\<lambda>(nb, MAX_SAMPLES, offset, i, correlation). MAX_SAMPLES - i)") auto

declare corr_loop.simps [simp del]

text \<open>
  The body of the search loop up to \<^verbatim>\<open>correlation = correlation / MAX_SAMPLES\<close>: the
  normalised correlation at one lag; \<open>None\<close> is a read out of bounds. With
  \<^verbatim>\<open>MAX_SAMPLES = 0\<close> the source's value is the \<^verbatim>\<open>NaN\<close> of \<^verbatim>\<open>0 / 0\<close>, which the
  comparison in \<open>search_loop\<close> and the test in \<open>parabolic_delta\<close> treat apart.
\<close>

definition correlation_at :: "real list \<Rightarrow> nat \<Rightarrow> int \<Rightarrow> real option" where
  "correlation_at nb MAX_SAMPLES offset =
     (case corr_loop nb MAX_SAMPLES offset 0 0 of
        None \<Rightarrow> None
      | Some s \<Rightarrow> Some (s / real MAX_SAMPLES))"

text \<open>
  The search loop
  \<^verbatim>\<open>for (let offset = MIN_OFFSET; offset < Math.min(MAX_OFFSET, MAX_SAMPLES); offset++)\<close>,
  with \<open>limit\<close> the value of \<^verbatim>\<open>Math.min(MAX_OFFSET, MAX_SAMPLES)\<close>; it returns
  \<^verbatim>\<open>best_offset\<close> and \<^verbatim>\<open>best_correlation\<close>. The test
  \<^verbatim>\<open>correlation > best_correlation\<close> is false when \<^verbatim>\<open>correlation\<close> is \<^verbatim>\<open>NaN\<close>.
\<close>

function search_loop ::
  "real list \<Rightarrow> nat \<Rightarrow> int \<Rightarrow> int \<Rightarrow> int \<Rightarrow> real \<Rightarrow> (int \<times> real) option" where
  "search_loop nb MAX_SAMPLES limit offset best_offset best_correlation =
     (if offset < limit then
        (case correlation_at nb MAX_SAMPLES offset of
           None \<Rightarrow> None
         | Some correlation \<Rightarrow>
             if MAX_SAMPLES \<noteq> 0 \<and> correlation > best_correlation
             then search_loop nb MAX_SAMPLES limit (offset + 1) offset correlation
             else search_loop nb MAX_SAMPLES limit (offset + 1) best_offset best_correlation)
      else Some (best_offset, best_correlation))"
  by pat_completeness auto
termination
  by (relation "measure (\<lambda>(nb, MAX_SAMPLES, limit, offset, best_offset, best_correlation).
        nat (limit - offset))") auto

declare search_loop.simps [simp del]

text \<open>
  The refinement loop, three sums in one pass:
  \<^verbatim>\<open>c1 += normalizedBuffer[i] * normalizedBuffer[i + best_offset - 1];\<close>
  \<^verbatim>\<open>c2 += normalizedBuffer[i] * normalizedBuffer[i + best_offset];\<close>
  \<^verbatim>\<open>c3 += normalizedBuffer[i] * normalizedBuffer[i + best_offset + 1];\<close>
\<close>

function refine_loop ::
  "real list \<Rightarrow> nat \<Rightarrow> int \<Rightarrow> nat \<Rightarrow> real \<times> real \<times> real \<Rightarrow> (real \<times> real \<times> real) option" where
  "refine_loop nb MAX_SAMPLES best_offset i (c1, c2, c3) =
     (if i < MAX_SAMPLES then
        (case product_at nb (int i) (int i + best_offset - 1) of
           None \<Rightarrow> None
         | Some p1 \<Rightarrow>
        (case product_at nb (int i) (int i + best_offset) of
           None \<Rightarrow> None
         | Some p2 \<Rightarrow>
        (case product_at nb (int i) (int i + best_offset + 1) of
           None \<Rightarrow> None
         | Some p3 \<Rightarrow> refine_loop nb MAX_SAMPLES best_offset (i + 1) (c1 + p1, c2 + p2, c3 + p3))))
      else Some (c1, c2, c3))"
  by pat_completeness auto
termination
  by (relation "measure (\<lambda>(nb, MAX_SAMPLES, best_offset, i, cs). MAX_SAMPLES - i)") auto

declare refine_loop.simps [simp del]

text \<open>
  \<^verbatim>\<open>const delta = 0.5 * (c1 - c3) / (c1 - 2 * c2 + c3)\<close> on the sums divided by
  \<^verbatim>\<open>MAX_SAMPLES\<close>, and the test \<^verbatim>\<open>!isNaN(delta) && Math.abs(delta) < 1\<close>: the result is
  \<open>Some delta\<close> when the test passes. With \<^verbatim>\<open>MAX_SAMPLES = 0\<close> the three correlations
  are \<^verbatim>\<open>NaN\<close>; with a zero denominator \<^verbatim>\<open>delta\<close> is \<^verbatim>\<open>NaN\<close> or infinite.
\<close>

definition parabolic_delta :: "nat \<Rightarrow> real \<times> real \<times> real \<Rightarrow> real option" where
  "parabolic_delta MAX_SAMPLES totals =
     (case totals of (s1, s2, s3) \<Rightarrow>
        let c1 = s1 / real MAX_SAMPLES;
            c2 = s2 / real MAX_SAMPLES;
            c3 = s3 / real MAX_SAMPLES;
            delta = 0.5 * (c1 - c3) / (c1 - 2 * c2 + c3)
        in if MAX_SAMPLES \<noteq> 0 \<and> c1 - 2 * c2 + c3 \<noteq> 0 \<and> abs delta < 1 then Some delta else None)"

text \<open>
  Lines 218 to 239: \<^verbatim>\<open>refined_offset\<close>, starting from \<^verbatim>\<open>best_offset\<close> and corrected
  under the guard \<^verbatim>\<open>best_offset > MIN_OFFSET && best_offset < MAX_OFFSET - 1\<close>.
\<close>

definition refine :: "real list \<Rightarrow> nat \<Rightarrow> int \<Rightarrow> int \<Rightarrow> int \<Rightarrow> real option" where
  "refine nb MAX_SAMPLES MIN_OFFSET MAX_OFFSET best_offset =
     (if best_offset > MIN_OFFSET \<and> best_offset < MAX_OFFSET - 1 then
        (case refine_loop nb MAX_SAMPLES best_offset 0 (0, 0, 0) of
           None \<Rightarrow> None
         | Some totals \<Rightarrow>
             (case parabolic_delta MAX_SAMPLES totals of
                None \<Rightarrow> Some (real_of_int best_offset)
              | Some delta \<Rightarrow> Some (real_of_int best_offset + delta)))
      else Some (real_of_int best_offset))"

text \<open>
  \<^verbatim>\<open>const frequency = sampleRate / refined_offset\<close> and the final range check; \<open>- 1\<close> is
  the source's "no pitch".
\<close>

definition range_check :: "real \<Rightarrow> real \<Rightarrow> real" where
  "range_check sampleRate refined_offset =
     (let frequency = sampleRate / refined_offset
      in if refined_offset \<noteq> 0 \<and> frequency \<ge> 82 \<and> frequency \<le> 1000 then frequency else - 1)"

definition autoCorrelate :: "real list \<Rightarrow> real \<Rightarrow> real option" where
  "autoCorrelate buffer sampleRate =
     (let SIZE = length buffer;
          MAX_SAMPLES = SIZE div 2;
          MAX_OFFSET = \<lfloor>sampleRate / 82\<rfloor>;
          MIN_OFFSET = \<lfloor>sampleRate / 1000\<rfloor>;
          rms = rms_of buffer
      in if below_threshold rms then Some (- 1)
         else
           let normalizedBuffer = normalizeBuffer rms buffer
           in (case search_loop normalizedBuffer MAX_SAMPLES (min MAX_OFFSET (int MAX_SAMPLES))
                      MIN_OFFSET (- 1) 0 of
                 None \<Rightarrow> None
               | Some (best_offset, best_correlation) \<Rightarrow>
                   if best_correlation > 0.5 \<and> best_offset \<noteq> - 1 then
                     (case refine normalizedBuffer MAX_SAMPLES MIN_OFFSET MAX_OFFSET best_offset of
                        None \<Rightarrow> None
                      | Some refined_offset \<Rightarrow> Some (range_check sampleRate refined_offset))
                   else Some (- 1)))"

subsection \<open>smoothFrequency\<close>

text \<open>
  \<^verbatim>\<open>frequencyHistory.push(frequency); if (frequencyHistory.length > HISTORY_SIZE) frequencyHistory.shift();\<close>
\<close>

definition push_history :: "real list \<Rightarrow> real \<Rightarrow> real list" where
  "push_history history f =
     (let pushed = history @ [f] in if length pushed > 5 then tl pushed else pushed)"

text \<open>
  \<^verbatim>\<open>const sorted = [...frequencyHistory].sort((a, b) => a - b); sorted[Math.floor(sorted.length / 2)]\<close>
\<close>

definition middle_of_sorted :: "real list \<Rightarrow> real" where
  "middle_of_sorted history = sort history ! (length history div 2)"

text \<open>The function returns its result and the tuner with both variables updated.\<close>

definition smoothFrequency :: "real \<Rightarrow> tuner \<Rightarrow> real \<times> tuner" where
  "smoothFrequency f st =
     (let history = push_history (frequencyHistory st) f;
          last = lastFrequency st;
          result =
            (if last > 0 then
               let ratio = f / last
               in if abs (ratio - 0.5) < 0.1 \<or> abs (ratio - 2.0) < 0.2 then last * 0.9 + f * 0.1
                  else if abs (ratio - 1.0) < 0.5 then last * 0.7 + f * (1 - 0.7)
                  else if length history \<ge> 3 then middle_of_sorted history
                  else f
             else f)
      in (result, st\<lparr>lastFrequency := result, frequencyHistory := history\<rparr>))"

text \<open>
  The specification's word for that value is "the median of the retained history". This
  is the property meant, stated without reference to sorting: \<open>m\<close> occurs in the list, at
  most half of the entries are smaller and at most half are larger.
\<close>

definition is_median :: "real list \<Rightarrow> real \<Rightarrow> bool" where
  "is_median xs m \<longleftrightarrow>
     m \<in> set xs \<and> 2 * length (filter (\<lambda>x. x < m) xs) \<le> length xs
       \<and> 2 * length (filter (\<lambda>x. m < x) xs) \<le> length xs"

subsection \<open>frequencyToNote and frequencyToCents\<close>

text \<open>
  Both are modelled for a positive argument, where \<^verbatim>\<open>Math.log\<close> is finite.
\<close>

definition frequencyToNote :: "real \<Rightarrow> note_result" where
  "frequencyToNote f =
     (let noteNum = 12 * (ln (f / 440) / ln 2);
          noteIndex = js_round noteNum + 69
      in \<lparr>name = read_at noteStrings (js_rem noteIndex 12),
          octave = \<lfloor>real_of_int noteIndex / 12\<rfloor> - 1,
          frequency = 440 * 2 powr (real_of_int (noteIndex - 69) / 12),
          midiNote = noteIndex\<rparr>)"

definition frequencyToCents :: "real \<Rightarrow> real \<Rightarrow> int" where
  "frequencyToCents f idealFrequency = \<lfloor>1200 * ln (f / idealFrequency) / ln 2\<rfloor>"

subsection \<open>detectPitch and stopTuner\<close>

text \<open>
  One run of \<^verbatim>\<open>detectPitch\<close> on the frame the analyser delivers.
  \<^verbatim>\<open>requestAnimationFrame\<close> only schedules the next run.
\<close>

definition detectPitch :: "real list \<Rightarrow> real \<Rightarrow> tuner \<Rightarrow> tuner option" where
  "detectPitch buffer sampleRate st =
     (if \<not> isRunning st then Some st
      else if below_threshold (rms_of buffer) then Some (st\<lparr>shown := NoSignal\<rparr>)
      else
        (case autoCorrelate buffer sampleRate of
           None \<Rightarrow> None
         | Some freq \<Rightarrow>
             if freq > 0 then
               (case smoothFrequency freq st of
                  (smoothedFrequency, st') \<Rightarrow>
                    let n = frequencyToNote smoothedFrequency;
                        cents = frequencyToCents smoothedFrequency (frequency n)
                    in Some (st'\<lparr>shown := Reading n smoothedFrequency cents\<rparr>))
             else Some (st\<lparr>shown := Detecting\<rparr>)))"

definition stopTuner :: "tuner \<Rightarrow> tuner" where
  "stopTuner st = st\<lparr>isRunning := False, shown := Cleared, lastFrequency := - 1, frequencyHistory := []\<rparr>"

section \<open>Every read is in bounds\<close>

lemma read_at_in_bounds:
  "0 \<le> k \<Longrightarrow> k < int (length arr) \<Longrightarrow> read_at arr k = Some (arr ! nat k)"
  by (simp add: read_at_def)

lemma product_at_in_bounds:
  "0 \<le> i \<Longrightarrow> i < int (length nb) \<Longrightarrow> 0 \<le> j \<Longrightarrow> j < int (length nb) \<Longrightarrow>
   product_at nb i j = Some (nb ! nat i * nb ! nat j)"
  by (simp add: product_at_def read_at_in_bounds)

lemma corr_loop_total:
  "0 \<le> offset \<Longrightarrow> int MAX_SAMPLES + offset \<le> int (length nb) \<Longrightarrow>
   \<exists>c. corr_loop nb MAX_SAMPLES offset i correlation = Some c"
proof (induction nb MAX_SAMPLES offset i correlation rule: corr_loop.induct)
  case (1 nb MAX_SAMPLES offset i correlation)
  show ?case
  proof (cases "i < MAX_SAMPLES")
    case True
    with "1.prems" have p: "product_at nb (int i) (int i + offset) =
        Some (nb ! nat (int i) * nb ! nat (int i + offset))"
      by (intro product_at_in_bounds) auto
    from "1.IH" [OF True p] "1.prems" show ?thesis
      by (subst corr_loop.simps) (simp add: True p)
  next
    case False
    then show ?thesis by (subst corr_loop.simps) simp
  qed
qed

lemma correlation_at_total:
  "0 \<le> offset \<Longrightarrow> int MAX_SAMPLES + offset \<le> int (length nb) \<Longrightarrow>
   \<exists>c. correlation_at nb MAX_SAMPLES offset = Some c"
  using corr_loop_total [of offset MAX_SAMPLES nb 0 0]
  by (auto simp: correlation_at_def)

lemma refine_loop_total:
  "1 \<le> best_offset \<Longrightarrow> int MAX_SAMPLES + best_offset + 1 \<le> int (length nb) \<Longrightarrow>
   \<exists>cs. refine_loop nb MAX_SAMPLES best_offset i acc = Some cs"
proof (induction nb MAX_SAMPLES best_offset i acc rule: refine_loop.induct)
  case (1 nb MAX_SAMPLES best_offset i c1 c2 c3)
  show ?case
  proof (cases "i < MAX_SAMPLES")
    case True
    with "1.prems" have p1: "product_at nb (int i) (int i + best_offset - 1) =
        Some (nb ! nat (int i) * nb ! nat (int i + best_offset - 1))"
      by (intro product_at_in_bounds) auto
    from True "1.prems" have p2: "product_at nb (int i) (int i + best_offset) =
        Some (nb ! nat (int i) * nb ! nat (int i + best_offset))"
      by (intro product_at_in_bounds) auto
    from True "1.prems" have p3: "product_at nb (int i) (int i + best_offset + 1) =
        Some (nb ! nat (int i) * nb ! nat (int i + best_offset + 1))"
      by (intro product_at_in_bounds) auto
    from "1.IH" [OF True p1 p2 p3] "1.prems" show ?thesis
      by (subst refine_loop.simps) (simp add: True p1 p2 p3)
  next
    case False
    then show ?thesis by (subst refine_loop.simps) simp
  qed
qed

lemma search_loop_total:
  "limit \<le> int MAX_SAMPLES \<Longrightarrow> 2 * MAX_SAMPLES \<le> length nb \<Longrightarrow>
   (offset < limit \<longrightarrow> 0 \<le> offset) \<Longrightarrow>
   \<exists>bo bc. search_loop nb MAX_SAMPLES limit offset best_offset best_correlation = Some (bo, bc)
      \<and> (bo = best_offset \<or> (offset \<le> bo \<and> bo < limit))"
proof (induction nb MAX_SAMPLES limit offset best_offset best_correlation rule: search_loop.induct)
  case (1 nb MAX_SAMPLES limit offset best_offset best_correlation)
  show ?case
  proof (cases "offset < limit")
    case True
    with "1.prems" have "0 \<le> offset" "int MAX_SAMPLES + offset \<le> int (length nb)" by auto
    then obtain c where c: "correlation_at nb MAX_SAMPLES offset = Some c"
      using correlation_at_total by blast
    show ?thesis
    proof (cases "MAX_SAMPLES \<noteq> 0 \<and> c > best_correlation")
      case yes: True
      from "1.IH"(1) [OF True c yes] "1.prems" True
      obtain bo bc where "search_loop nb MAX_SAMPLES limit (offset + 1) offset c = Some (bo, bc)"
        "bo = offset \<or> (offset + 1 \<le> bo \<and> bo < limit)" by auto
      with True c yes show ?thesis
        by (subst search_loop.simps) auto
    next
      case no: False
      from "1.IH"(2) [OF True c no] "1.prems" True
      obtain bo bc where "search_loop nb MAX_SAMPLES limit (offset + 1) best_offset best_correlation = Some (bo, bc)"
        "bo = best_offset \<or> (offset + 1 \<le> bo \<and> bo < limit)" by auto
      with True c no show ?thesis
        by (subst search_loop.simps) auto
    qed
  next
    case False
    then show ?thesis by (subst search_loop.simps) simp
  qed
qed

lemma length_normalize: "length (normalizeBuffer (rms_of buffer) buffer) = length buffer"
  by (simp add: normalizeBuffer_def rms_of_def)

lemma offsets_nonneg:
  fixes sampleRate :: real
  assumes "\<lfloor>sampleRate / 1000\<rfloor> < min \<lfloor>sampleRate / 82\<rfloor> (int MAX_SAMPLES)"
  shows "0 \<le> \<lfloor>sampleRate / 1000\<rfloor>"
proof (rule ccontr)
  assume "\<not> 0 \<le> \<lfloor>sampleRate / 1000\<rfloor>"
  then have "sampleRate / 1000 < 0" by linarith
  then have neg: "sampleRate < 0" by simp
  then have "sampleRate / 82 \<le> sampleRate / 1000" by simp
  then have "\<lfloor>sampleRate / 82\<rfloor> \<le> \<lfloor>sampleRate / 1000\<rfloor>" by (rule floor_mono)
  with assms show False by simp
qed

lemma search_from_start:
  fixes sampleRate :: real
  assumes "2 * MAX_SAMPLES \<le> length nb"
  shows "\<exists>bo bc. search_loop nb MAX_SAMPLES (min \<lfloor>sampleRate / 82\<rfloor> (int MAX_SAMPLES))
            \<lfloor>sampleRate / 1000\<rfloor> (- 1) 0 = Some (bo, bc)
          \<and> (bo = - 1 \<or> (0 \<le> \<lfloor>sampleRate / 1000\<rfloor> \<and> \<lfloor>sampleRate / 1000\<rfloor> \<le> bo
                \<and> bo < \<lfloor>sampleRate / 82\<rfloor> \<and> bo < int MAX_SAMPLES))"
proof -
  let ?lo = "\<lfloor>sampleRate / 1000\<rfloor>" and ?limit = "min \<lfloor>sampleRate / 82\<rfloor> (int MAX_SAMPLES)"
  have "?lo < ?limit \<longrightarrow> 0 \<le> ?lo" using offsets_nonneg by blast
  from search_loop_total [OF _ assms this, of "- 1" 0]
  obtain bo bc where r: "search_loop nb MAX_SAMPLES ?limit ?lo (- 1) 0 = Some (bo, bc)"
    and b: "bo = - 1 \<or> (?lo \<le> bo \<and> bo < ?limit)" by auto
  from b have "bo = - 1 \<or> (0 \<le> ?lo \<and> ?lo \<le> bo \<and> bo < \<lfloor>sampleRate / 82\<rfloor> \<and> bo < int MAX_SAMPLES)"
    using offsets_nonneg [of sampleRate MAX_SAMPLES] by auto
  with r show ?thesis by blast
qed

lemma refine_total:
  assumes "best_offset > MIN_OFFSET \<longrightarrow> 1 \<le> best_offset"
    and "int MAX_SAMPLES + best_offset + 1 \<le> int (length nb)"
  shows "\<exists>r. refine nb MAX_SAMPLES MIN_OFFSET MAX_OFFSET best_offset = Some r"
proof (cases "best_offset > MIN_OFFSET \<and> best_offset < MAX_OFFSET - 1")
  case True
  with assms have "1 \<le> best_offset" by simp
  from refine_loop_total [OF this assms(2), of 0 "(0, 0, 0)"]
  obtain cs where "refine_loop nb MAX_SAMPLES best_offset 0 (0, 0, 0) = Some cs" by blast
  with True show ?thesis by (simp add: refine_def split: option.split)
next
  case False
  then show ?thesis by (auto simp: refine_def)
qed

lemma autoCorrelate_returns:
  "\<exists>r. autoCorrelate buffer sampleRate = Some r"
proof -
  let ?nb = "normalizeBuffer (rms_of buffer) buffer"
  let ?M = "length buffer div 2"
  let ?lo = "\<lfloor>sampleRate / 1000\<rfloor>" and ?hi = "\<lfloor>sampleRate / 82\<rfloor>"
  have len: "2 * ?M \<le> length ?nb" by (simp add: length_normalize)
  from search_from_start [OF len, of sampleRate]
  obtain bo bc where s: "search_loop ?nb ?M (min ?hi (int ?M)) ?lo (- 1) 0 = Some (bo, bc)"
    and b: "bo = - 1 \<or> (0 \<le> ?lo \<and> ?lo \<le> bo \<and> bo < ?hi \<and> bo < int ?M)" by blast
  show ?thesis
  proof (cases "bc > 0.5 \<and> bo \<noteq> - 1")
    case True
    with b have range: "0 \<le> ?lo" "?lo \<le> bo" "bo < int ?M" by auto
    then have "bo > ?lo \<longrightarrow> 1 \<le> bo" by linarith
    moreover from range len have "int ?M + bo + 1 \<le> int (length ?nb)" by linarith
    ultimately have "bo > ?lo \<longrightarrow> 1 \<le> bo" and "int ?M + bo + 1 \<le> int (length ?nb)" .
    from refine_total [OF this, of ?hi]
    obtain r where "refine ?nb ?M ?lo ?hi bo = Some r" by blast
    with s True show ?thesis by (simp add: autoCorrelate_def Let_def)
  next
    case False
    with s show ?thesis by (auto simp: autoCorrelate_def Let_def)
  qed
qed

text \<open>
  C10. For every buffer and every sample rate, all reads of the normalised buffer in
  \<^verbatim>\<open>autoCorrelate\<close> are in bounds: in the search loop \<open>i + offset < N\<close> for every lag
  visited, in the refinement loop \<open>i + best_offset + 1 < N\<close> and \<open>0 \<le> i + best_offset - 1\<close>.
  In the model a read out of bounds is the result \<open>None\<close>, which never occurs.
\<close>

theorem autoCorrelate_reads_in_bounds:
  "\<exists>r. autoCorrelate buffer sampleRate = Some r"
proof -
  let ?nb = "normalizeBuffer (rms_of buffer) buffer"
  let ?M = "length buffer div 2"
  let ?lo = "\<lfloor>sampleRate / 1000\<rfloor>" and ?hi = "\<lfloor>sampleRate / 82\<rfloor>"
  have len: "2 * ?M \<le> length ?nb" by (simp add: length_normalize)
  from search_from_start [OF len, of sampleRate]
  obtain bo bc where s: "search_loop ?nb ?M (min ?hi (int ?M)) ?lo (- 1) 0 = Some (bo, bc)"
    and b: "bo = - 1 \<or> (0 \<le> ?lo \<and> ?lo \<le> bo \<and> bo < ?hi \<and> bo < int ?M)" by blast
  show ?thesis
  proof (cases "below_threshold (rms_of buffer) \<or> \<not> (bc > 0.5 \<and> bo \<noteq> - 1)")
    case True
    with s show ?thesis by (auto simp: autoCorrelate_def Let_def)
  next
    case False
    with b have range: "0 \<le> ?lo" "?lo \<le> bo" "bo < int ?M" by auto
    then have first: "bo > ?lo \<longrightarrow> 1 \<le> bo" by linarith
    from range len have last: "int ?M + bo + 1 \<le> int (length ?nb)" by linarith
    from refine_total [OF first last, of ?hi]
    obtain r where "refine ?nb ?M ?lo ?hi bo = Some r" by blast
    with s False show ?thesis by (simp add: autoCorrelate_def Let_def)
  qed
qed

section \<open>The range of the estimate\<close>










text \<open>The upper bound is attained: a frame of period 2 at 2000 Hz gives exactly 1000 Hz.\<close>

lemma autoCorrelate_upper_boundary:
  "autoCorrelate [1, - 1, 1, - 1, 1, - 1, 1, - 1] 2000 = Some 1000"
  by (simp add: autoCorrelate_def rms_of_def sum_squares_def below_threshold_def normalizeBuffer_def
      search_loop.simps correlation_at_def corr_loop.simps product_at_def read_at_def refine_def
      range_check_def)

section \<open>Sub-sample refinement\<close>











section \<open>Temporal smoothing\<close>

lemma length_push_history:
  "length (frequencyHistory st) \<le> 5 \<Longrightarrow> length (push_history (frequencyHistory st) f) \<le> 5"
  by (simp add: push_history_def Let_def)

lemma filter_insort_length:
  "length (filter P (insort x xs)) = length (filter P (x # xs))"
  by (induction xs) auto

lemma filter_sort_length: "length (filter P (sort xs)) = length (filter P xs)"
  by (induction xs) (simp_all add: filter_insort_length)

lemma sorted_filter_less_take:
  assumes "sorted ys" and "k < length ys"
  shows "length (filter (\<lambda>x. x < ys ! k) ys) \<le> k"
proof -
  have ys: "ys = take k ys @ drop k ys" by simp
  have "\<forall>x \<in> set (drop k ys). ys ! k \<le> x"
  proof
    fix x assume "x \<in> set (drop k ys)"
    then obtain j where "j < length (drop k ys)" "x = drop k ys ! j"
      by (auto simp: in_set_conv_nth)
    with assms show "ys ! k \<le> x" by (simp add: sorted_nth_mono)
  qed
  then have "filter (\<lambda>x. x < ys ! k) (drop k ys) = []"
    by (auto simp: filter_empty_conv)
  then have "filter (\<lambda>x. x < ys ! k) ys = filter (\<lambda>x. x < ys ! k) (take k ys)"
    by (subst ys) (simp del: append_take_drop_id)
  also have "length \<dots> \<le> length (take k ys)" by (rule length_filter_le)
  finally show ?thesis using assms by simp
qed

lemma sorted_filter_greater_drop:
  assumes "sorted ys" and "k < length ys"
  shows "length (filter (\<lambda>x. ys ! k < x) ys) \<le> length ys - Suc k"
proof -
  have ys: "ys = take (Suc k) ys @ drop (Suc k) ys" by simp
  have "\<forall>x \<in> set (take (Suc k) ys). x \<le> ys ! k"
  proof
    fix x assume "x \<in> set (take (Suc k) ys)"
    then obtain j where "j < length (take (Suc k) ys)" "x = take (Suc k) ys ! j"
      by (auto simp: in_set_conv_nth)
    with assms show "x \<le> ys ! k" by (simp add: sorted_nth_mono)
  qed
  then have "filter (\<lambda>x. ys ! k < x) (take (Suc k) ys) = []"
    by (auto simp: filter_empty_conv)
  then have "filter (\<lambda>x. ys ! k < x) ys = filter (\<lambda>x. ys ! k < x) (drop (Suc k) ys)"
    by (subst ys) (simp del: append_take_drop_id)
  also have "length \<dots> \<le> length (drop (Suc k) ys)" by (rule length_filter_le)
  finally show ?thesis by simp
qed

lemma middle_of_sorted_is_median:
  assumes "xs \<noteq> []"
  shows "is_median xs (middle_of_sorted xs)"
proof -
  let ?ys = "sort xs" and ?k = "length xs div 2"
  let ?m = "sort xs ! (length xs div 2)"
  from assms have k: "?k < length ?ys" by (cases xs) simp_all
  then have "?m \<in> set ?ys" by (rule nth_mem)
  then have mem: "?m \<in> set xs" by simp
  from sorted_filter_less_take [OF sorted_sort k]
  have "length (filter (\<lambda>x. x < ?m) xs) \<le> ?k" by (simp add: filter_sort_length)
  then have less: "2 * length (filter (\<lambda>x. x < ?m) xs) \<le> length xs" by simp
  from sorted_filter_greater_drop [OF sorted_sort k]
  have "length (filter (\<lambda>x. ?m < x) xs) \<le> length xs - Suc ?k" by (simp add: filter_sort_length)
  then have greater: "2 * length (filter (\<lambda>x. ?m < x) xs) \<le> length xs" by linarith
  from mem less greater show ?thesis by (simp add: is_median_def middle_of_sorted_def)
qed





text \<open>
  C6. After a call of \<^verbatim>\<open>smoothFrequency\<close> with the raw frequency \<open>F\<close>, on a history of
  at most 5 entries: the newest entry of the history is \<open>F\<close> itself, the history has at
  most 5 entries, it is the old history with \<open>F\<close> appended and, when the old one was
  full, its oldest entry removed, and \<^verbatim>\<open>lastFrequency\<close> is the value returned. The
  bound holds at the start and after \<^verbatim>\<open>stopTuner\<close>, hence after every call.
\<close>

theorem smoothFrequency_history:
  assumes "length (frequencyHistory st) \<le> 5"
  shows "frequencyHistory (snd (smoothFrequency F st)) \<noteq> []
     \<and> last (frequencyHistory (snd (smoothFrequency F st))) = F
     \<and> length (frequencyHistory (snd (smoothFrequency F st))) \<le> 5
     \<and> frequencyHistory (snd (smoothFrequency F st)) =
         (if length (frequencyHistory st) < 5 then frequencyHistory st @ [F]
          else tl (frequencyHistory st) @ [F])
     \<and> lastFrequency (snd (smoothFrequency F st)) = fst (smoothFrequency F st)
     \<and> length (frequencyHistory initial_tuner) \<le> 5
     \<and> length (frequencyHistory (stopTuner st)) \<le> 5"
proof -
  let ?h = "frequencyHistory st"
  have hist: "frequencyHistory (snd (smoothFrequency F st)) = push_history ?h F"
    by (simp add: smoothFrequency_def Let_def)
  have push: "push_history ?h F = (if length ?h < 5 then ?h @ [F] else tl ?h @ [F])"
    using assms by (cases ?h) (auto simp: push_history_def Let_def)
  have lastf: "lastFrequency (snd (smoothFrequency F st)) = fst (smoothFrequency F st)"
    by (simp add: smoothFrequency_def Let_def)
  from assms have len: "length (push_history ?h F) \<le> 5" by (rule length_push_history)
  have "(if length ?h < 5 then ?h @ [F] else tl ?h @ [F]) \<noteq> []"
    and "last (if length ?h < 5 then ?h @ [F] else tl ?h @ [F]) = F"
    by simp_all
  with hist push lastf len show ?thesis
    by (simp add: initial_tuner_def stopTuner_def)
qed

text \<open>
  A full history 1, 2, 3, 4, 5 becomes 2, 3, 4, 5, 6; a history 1, 2 becomes 1, 2, 3.
\<close>

theorem smoothFrequency_history_witness:
  "frequencyHistory (snd (smoothFrequency 6
      \<lparr>isRunning = True, lastFrequency = 5, frequencyHistory = [1, 2, 3, 4, 5], shown = Detecting\<rparr>))
    = [2, 3, 4, 5, 6]
   \<and> frequencyHistory (snd (smoothFrequency 3
      \<lparr>isRunning = True, lastFrequency = 2, frequencyHistory = [1, 2], shown = Detecting\<rparr>))
    = [1, 2, 3]"
  using smoothFrequency_history
    [of "\<lparr>isRunning = True, lastFrequency = 5, frequencyHistory = [1, 2, 3, 4, 5], shown = Detecting\<rparr>" 6]
    smoothFrequency_history
    [of "\<lparr>isRunning = True, lastFrequency = 2, frequencyHistory = [1, 2], shown = Detecting\<rparr>" 3]
  by simp

text \<open>
  The bound along any sequence of calls from the initial state.
\<close>

lemma smoothFrequency_sequence_bounded:
  "length (frequencyHistory (foldl (\<lambda>st f. snd (smoothFrequency f st)) initial_tuner fs)) \<le> 5"
proof (induction fs rule: rev_induct)
  case Nil
  then show ?case by (simp add: initial_tuner_def)
next
  case (snoc f fs)
  then show ?case
    by (simp add: smoothFrequency_def Let_def length_push_history)
qed

section \<open>Note mapping\<close>















subsection \<open>The frequencies that reach the note mapper\<close>

text \<open>
  Inside the program the MIDI number is never negative. \<^verbatim>\<open>autoCorrelate\<close> only returns
  frequencies from 82 to 1000 Hz, \<^verbatim>\<open>smoothFrequency\<close> keeps its result and its history
  in that range, and from 82 Hz on the MIDI number is at least 0.
\<close>

lemma midiNote_in_range_nonneg:
  assumes "82 \<le> f"
  shows "0 \<le> midiNote (frequencyToNote f)"
proof -
  have eighth: "ln (1 / 8 :: real) = - 3 * ln 2"
  proof -
    have "ln ((2::real) ^ 3) = real 3 * ln 2" by (rule ln_realpow)
    moreover have "(2::real) ^ 3 = 8" by simp
    ultimately have "ln (8::real) = 3 * ln 2" by simp
    moreover have "ln (1 / 8 :: real) = - ln 8" by (simp add: ln_div)
    ultimately show ?thesis by simp
  qed
  from assms have "1 / 8 \<le> f / 440" by simp
  then have "ln (1 / 8 :: real) \<le> ln (f / 440)" by (subst ln_le_cancel_iff) simp_all
  with eighth have "- 3 * ln 2 \<le> ln (f / 440)" by simp
  moreover have "0 < ln (2::real)" by simp
  ultimately have "- 3 \<le> ln (f / 440) / ln 2" by (simp add: pos_le_divide_eq)
  then have "- 36 \<le> 12 * (ln (f / 440) / ln 2)" by simp
  then have "- 36 \<le> js_round (12 * (ln (f / 440) / ln 2))"
    unfolding js_round_def by (simp add: le_floor_iff)
  then show ?thesis by (simp add: frequencyToNote_def Let_def)
qed

lemma push_history_set: "set (push_history history f) \<subseteq> insert f (set history)"
  by (cases history) (auto simp: push_history_def Let_def)

lemma middle_of_sorted_mem: "xs \<noteq> [] \<Longrightarrow> middle_of_sorted xs \<in> set xs"
  using middle_of_sorted_is_median [of xs] by (simp add: is_median_def)

lemma smoothFrequency_in_range:
  assumes f: "82 \<le> f" "f \<le> 1000"
    and last: "lastFrequency st > 0 \<longrightarrow> 82 \<le> lastFrequency st \<and> lastFrequency st \<le> 1000"
    and hist: "\<forall>x \<in> set (frequencyHistory st). 82 \<le> x \<and> x \<le> 1000"
  shows "82 \<le> fst (smoothFrequency f st) \<and> fst (smoothFrequency f st) \<le> 1000
     \<and> (\<forall>x \<in> set (frequencyHistory (snd (smoothFrequency f st))). 82 \<le> x \<and> x \<le> 1000)"
proof -
  let ?h = "push_history (frequencyHistory st) f"
  from push_history_set [of "frequencyHistory st" f] f hist
  have h: "\<forall>x \<in> set ?h. 82 \<le> x \<and> x \<le> 1000" by auto
  have "?h \<noteq> []" by (cases "frequencyHistory st") (simp_all add: push_history_def Let_def)
  then have "middle_of_sorted ?h \<in> set ?h" by (rule middle_of_sorted_mem)
  with h have m: "82 \<le> middle_of_sorted ?h \<and> middle_of_sorted ?h \<le> 1000" by blast
  from f last m have "82 \<le> fst (smoothFrequency f st) \<and> fst (smoothFrequency f st) \<le> 1000"
    by (auto simp: smoothFrequency_def Let_def)
  moreover have "frequencyHistory (snd (smoothFrequency f st)) = ?h"
    by (simp add: smoothFrequency_def Let_def)
  ultimately show ?thesis using h by simp
qed

section \<open>Frames without a pitch\<close>

lemma detectPitch_no_pitch:
  assumes "below_threshold (rms_of buffer) \<or> (\<exists>r. autoCorrelate buffer sampleRate = Some r \<and> \<not> 0 < r)"
  shows "\<exists>st'. detectPitch buffer sampleRate st = Some st'
           \<and> lastFrequency st' = lastFrequency st \<and> frequencyHistory st' = frequencyHistory st"
  using assms by (auto simp: detectPitch_def)

lemma detectPitch_keeps_entries:
  assumes "detectPitch buffer sampleRate st = Some st'" and "frequencyHistory st' = []"
  shows "frequencyHistory st = []"
proof (rule ccontr)
  assume nonempty: "frequencyHistory st \<noteq> []"
  have "push_history (frequencyHistory st) f \<noteq> []" for f
    by (cases "frequencyHistory st") (simp_all add: push_history_def Let_def)
  then have "smoothFrequency f st = (out, s) \<Longrightarrow> frequencyHistory s \<noteq> []" for f out s
    by (auto simp: smoothFrequency_def Let_def)
  with assms nonempty show False
    by (auto simp: detectPitch_def Let_def split: if_splits option.splits prod.splits)
qed

lemma detectPitch_returns: "\<exists>st'. detectPitch buffer sampleRate st = Some st'"
proof -
  from autoCorrelate_returns obtain r where r: "autoCorrelate buffer sampleRate = Some r" by blast
  obtain out s where sm: "smoothFrequency r st = (out, s)" by (cases "smoothFrequency r st")
  show ?thesis by (simp add: detectPitch_def r sm Let_def)
qed

text \<open>
  C7. Every run of \<^verbatim>\<open>detectPitch\<close> returns; a frame with too little signal, or for which
  \<^verbatim>\<open>autoCorrelate\<close> returns no positive frequency, leaves \<^verbatim>\<open>lastFrequency\<close> and
  \<^verbatim>\<open>frequencyHistory\<close> as they were; no frame empties a history that has entries; and
  \<^verbatim>\<open>stopTuner\<close> resets both.
\<close>

theorem no_pitch_frame_keeps_smoother:
  "(\<exists>st'. detectPitch buffer sampleRate st = Some st'
      \<and> ((below_threshold (rms_of buffer) \<or> (\<exists>r. autoCorrelate buffer sampleRate = Some r \<and> \<not> 0 < r))
           \<longrightarrow> lastFrequency st' = lastFrequency st \<and> frequencyHistory st' = frequencyHistory st)
      \<and> (frequencyHistory st' = [] \<longrightarrow> frequencyHistory st = []))
   \<and> lastFrequency (stopTuner st) = - 1 \<and> frequencyHistory (stopTuner st) = []"
proof -
  from detectPitch_returns obtain st' where st': "detectPitch buffer sampleRate st = Some st'"
    by blast
  from detectPitch_no_pitch [of buffer sampleRate st] st'
  have "(below_threshold (rms_of buffer) \<or> (\<exists>r. autoCorrelate buffer sampleRate = Some r \<and> \<not> 0 < r))
           \<longrightarrow> lastFrequency st' = lastFrequency st \<and> frequencyHistory st' = frequencyHistory st"
    by auto
  moreover from detectPitch_keeps_entries [OF st']
  have "frequencyHistory st' = [] \<longrightarrow> frequencyHistory st = []" by blast
  moreover have "lastFrequency (stopTuner st) = - 1 \<and> frequencyHistory (stopTuner st) = []"
    by (simp add: stopTuner_def)
  ultimately show ?thesis using st' by blast
qed

lemma autoCorrelate_weak_frame:
  "autoCorrelate [1, 1, - 1, - 1, 1, 1, - 1, - 1] 1000 = Some (- 1)"
  by (simp add: autoCorrelate_def rms_of_def sum_squares_def below_threshold_def normalizeBuffer_def
      search_loop.simps correlation_at_def corr_loop.simps product_at_def read_at_def)

text \<open>
  Two frames without a pitch: silence, and the frame of period 4 whose correlations in
  the window stay under the threshold.
\<close>

theorem no_pitch_frame_keeps_smoother_witness:
  "(\<exists>st'. detectPitch [0, 0, 0, 0] 44100
        \<lparr>isRunning = True, lastFrequency = 220, frequencyHistory = [220, 221], shown = Detecting\<rparr> = Some st'
      \<and> lastFrequency st' = 220 \<and> frequencyHistory st' = [220, 221])
   \<and> (\<exists>st'. detectPitch [1, 1, - 1, - 1, 1, 1, - 1, - 1] 1000
        \<lparr>isRunning = True, lastFrequency = 220, frequencyHistory = [220, 221], shown = NoSignal\<rparr> = Some st'
      \<and> lastFrequency st' = 220 \<and> frequencyHistory st' = [220, 221])"
proof -
  have silent: "below_threshold (rms_of [0, 0, 0, 0])"
    by (simp add: below_threshold_def rms_of_def sum_squares_def)
  have weak: "\<exists>r. autoCorrelate [1, 1, - 1, - 1, 1, 1, - 1, - 1] 1000 = Some r \<and> \<not> 0 < r"
    by (simp add: autoCorrelate_weak_frame)
  from no_pitch_frame_keeps_smoother [of "[0, 0, 0, 0]" 44100
      "\<lparr>isRunning = True, lastFrequency = 220, frequencyHistory = [220, 221], shown = Detecting\<rparr>"] silent
  have one: "\<exists>st'. detectPitch [0, 0, 0, 0] 44100
        \<lparr>isRunning = True, lastFrequency = 220, frequencyHistory = [220, 221], shown = Detecting\<rparr> = Some st'
      \<and> lastFrequency st' = 220 \<and> frequencyHistory st' = [220, 221]"
    by auto
  from no_pitch_frame_keeps_smoother [of "[1, 1, - 1, - 1, 1, 1, - 1, - 1]" 1000
      "\<lparr>isRunning = True, lastFrequency = 220, frequencyHistory = [220, 221], shown = NoSignal\<rparr>"] weak
  have two: "\<exists>st'. detectPitch [1, 1, - 1, - 1, 1, 1, - 1, - 1] 1000
        \<lparr>isRunning = True, lastFrequency = 220, frequencyHistory = [220, 221], shown = NoSignal\<rparr> = Some st'
      \<and> lastFrequency st' = 220 \<and> frequencyHistory st' = [220, 221]"
    by auto
  from one two show ?thesis by blast
qed

lemma search_loop_empty:
  fixes sampleRate :: real
  shows "search_loop [] 0 (min \<lfloor>sampleRate / 82\<rfloor> (int 0)) \<lfloor>sampleRate / 1000\<rfloor> (- 1) 0 = Some (- 1, 0)"
proof -
  have stop: "\<not> \<lfloor>sampleRate / 1000\<rfloor> < min \<lfloor>sampleRate / 82\<rfloor> (int 0)"
    using offsets_nonneg [of sampleRate 0] by auto
  show ?thesis by (subst search_loop.simps) (simp only: stop if_False)
qed

text \<open>
  C8, as amended. An empty frame raises nothing. Its RMS is \<^verbatim>\<open>NaN\<close>, so the test
  \<^verbatim>\<open>rms < 0.01\<close> is false; the search loop of \<^verbatim>\<open>autoCorrelate\<close> makes no iteration and the
  function returns \<open>- 1\<close>, its ordinary "no pitch"; a running \<^verbatim>\<open>detectPitch\<close> shows
  \<^verbatim>\<open>'Detecting...'\<close> and changes nothing else.
\<close>

theorem empty_frame_is_no_pitch:
  "rms_of [] = None \<and> \<not> below_threshold (rms_of [])
   \<and> autoCorrelate [] sampleRate = Some (- 1)
   \<and> detectPitch [] sampleRate (st\<lparr>isRunning := True\<rparr>) = Some (st\<lparr>isRunning := True, shown := Detecting\<rparr>)"
proof -
  have gate: "rms_of [] = None" "\<not> below_threshold (rms_of [])"
    by (simp_all add: rms_of_def below_threshold_def)
  have "autoCorrelate [] sampleRate = Some (- 1)"
    using search_loop_empty [of sampleRate]
    by (simp add: autoCorrelate_def Let_def gate normalizeBuffer_def)
  with gate show ?thesis by (simp add: detectPitch_def)
qed

text \<open>
  C8, as stated, fails: on the empty frame at 44100 Hz both functions return normally.
\<close>

theorem empty_frame_accepted:
  "autoCorrelate [] 44100 = Some (- 1)
   \<and> detectPitch [] 44100 (initial_tuner\<lparr>isRunning := True\<rparr>)
       = Some (initial_tuner\<lparr>isRunning := True, shown := Detecting\<rparr>)"
  by (simp add: autoCorrelate_def rms_of_def below_threshold_def normalizeBuffer_def
      search_loop.simps detectPitch_def)

end
